theory Spec2Isabelle
  imports Complex_Main
begin

section \<open>The One Piece generator backend: data model\<close>

text \<open>
  The server keeps two module-level tables, \<open>sseClients\<close> and \<open>activeProjects\<close>, and
  relays the events of the image provider to the open event streams of a project.
  Identifiers and texts are strings. A JavaScript number that carries a progress value
  is modelled as a real number: the rounding error of the double multiplication by 100,
  NaN and the infinities are outside the model.
\<close>

type_synonym projectId = string
type_synonym jobId = string

text \<open>What \<open>emitToProject\<close> receives as \<open>payload\<close>: the four shapes built in the handlers.\<close>

datatype payload =
    Progress jobId int
  | JobCompleted jobId string string
  | Completed
  | Failed string

text \<open>
  The line written to a stream is \<open>data: JSON.stringify({ projectId, ...payload })\<close>;
  it is kept here as the pair it serialises.
\<close>

type_synonym message = "projectId \<times> payload"

text \<open>
  An open event stream (the \<open>res\<close> objects held in \<open>sseClients\<close>): what has been written
  to it, and whether \<open>res.write\<close> throws.
\<close>

record client =
  client_id :: nat
  write_throws :: bool
  received :: "message list"

record job =
  job_id :: jobId

record project =
  proj_id :: projectId
  proj_jobs :: "job list"

section \<open>Prompt variations\<close>

definition default_characters :: "string list" where
  "default_characters =
    [''Monkey D. Luffy'', ''Roronoa Zoro'', ''Nami'', ''Usopp'', ''Sanji'',
     ''Tony Tony Chopper'', ''Nico Robin'', ''Franky'', ''Brook'', ''Jimbei'',
     ''Shanks'', ''Portgas D. Ace'', ''Trafalgar Law'', ''Boa Hancock'']"

definition styles :: "string list" where
  "styles =
    [''Eiichiro Oda art style'',
     ''official One Piece manga style'',
     ''vibrant anime colors'',
     ''dynamic shonen action pose'',
     ''detailed line art'',
     ''bold inking style'',
     ''color spread style'',
     ''volume cover art style'',
     ''Wanted poster style'',
     ''anime key visual style'']"

definition default_scenes :: "string list" where
  "default_scenes =
    [''on the Thousand Sunny'',
     ''battle scene'',
     ''Devil Fruit power activation'',
     ''in the Grand Line'',
     ''at Marineford'',
     ''in Wano Country'',
     ''with the Straw Hat crew'',
     ''using Haki'',
     ''in a dramatic close-up'',
     ''laughing together'']"

text \<open>The body of the loop: the prompt built at index \<open>i\<close>. The three lists are never empty,
  so every index \<open>i mod length\<close> is in range.\<close>

definition variation_prompt :: "string \<Rightarrow> string list \<Rightarrow> string list \<Rightarrow> nat \<Rightarrow> string" where
  "variation_prompt basePrompt characters scenes i =
     (let char = characters ! (i mod length characters);
          style = styles ! (i mod length styles);
          scene = scenes ! (i mod length scenes);
          prompt = char @ '', '' @ basePrompt @ '', '' @ scene @ '', '' @ style
                   @ '', official One Piece artwork''
      in prompt @ '', detailed anime illustration, vibrant colors, dynamic composition'')"

text \<open>\<open>for (let i = 0; i < 16; i++) variations.push(prompt)\<close>\<close>

function variations_loop :: "string \<Rightarrow> string list \<Rightarrow> string list \<Rightarrow> nat \<Rightarrow> string list \<Rightarrow> string list" where
  "variations_loop basePrompt characters scenes i variations =
     (if i < 16
      then variations_loop basePrompt characters scenes (i + 1)
             (variations @ [variation_prompt basePrompt characters scenes i])
      else variations)"
  by pat_completeness auto
termination
  by (relation "measure (\<lambda>(b, cs, ss, i, vs). 16 - i)") auto

text \<open>An empty string is falsy: \<open>character ? [character] : [...]\<close>.\<close>

definition generateOnePieceVariations :: "string \<Rightarrow> string \<Rightarrow> string \<Rightarrow> string list" where
  "generateOnePieceVariations basePrompt character sceneType =
     (let characters = (if character \<noteq> [] then [character] else default_characters);
          scenes = (if sceneType \<noteq> [] then [sceneType] else default_scenes)
      in variations_loop basePrompt characters scenes 0 [])"

section \<open>POST /api/generate\<close>

record request =
  req_prompt :: string
  req_character :: string
  req_sceneType :: string
  req_seed :: "int option"

text \<open>The argument of \<open>client.projects.create\<close>. The render defaults spread into it
  (steps, guidance, scheduler, size, token type) are constants and are left out, except
  the negative prompt.\<close>

record create_params =
  modelId :: string
  positivePrompt :: string
  negativePrompt :: string
  numberOfImages :: nat
  seed :: "int option"

definition MODEL_ID :: string where
  "MODEL_ID = ''flux1-schnell-fp8''"

definition RENDER_DEFAULTS_negativePrompt :: string where
  "RENDER_DEFAULTS_negativePrompt =
     ''blurry, low quality, watermark, text, signature, bad anatomy, distorted, ugly, realistic, photorealistic, 3d render''"

text \<open>\<open>seed\<close> is passed on unless it is undefined or \<open>-1\<close>.\<close>

definition project_params :: "request \<Rightarrow> create_params" where
  "project_params req =
     (let variations = generateOnePieceVariations (req_prompt req) (req_character req) (req_sceneType req)
      in \<lparr> modelId = MODEL_ID,
           positivePrompt = variations ! 0,
           negativePrompt = RENDER_DEFAULTS_negativePrompt,
           numberOfImages = 16,
           seed = (case req_seed req of None \<Rightarrow> None
                   | Some n \<Rightarrow> if n \<noteq> - 1 then Some n else None) \<rparr>)"

datatype response =
    Status400 string
  | Status500 string
  | Json200 projectId "(jobId \<times> nat) list"

text \<open>\<open>project.jobs.map((j, i) => ({ id: j.id, index: i }))\<close>\<close>

definition jobs_json :: "job list \<Rightarrow> (jobId \<times> nat) list" where
  "jobs_json js = map (\<lambda>(j, i). (job_id j, i)) (zip js [0..<length js])"


section \<open>The relay\<close>

subsection \<open>Progress percent\<close>

text \<open>
  Modelled from the spec: \<open>clamp01\<close> is called by \<open>onJob\<close> but defined in no source file;
  the spec says the progress value is clamped to [0,1] to tolerate upstream values outside
  that range.
\<close>

definition clamp01 :: "real \<Rightarrow> real" where
  "clamp01 x = max 0 (min 1 x)"

text \<open>\<open>Math.round\<close>: the nearest integer, a half rounded up.\<close>

definition Math_round :: "real \<Rightarrow> int" where
  "Math_round x = \<lfloor>x + 1 / 2\<rfloor>"

text \<open>\<open>Math.round(clamp01(evt.progress) * 100)\<close>\<close>

definition progress_percent :: "real \<Rightarrow> int" where
  "progress_percent p = Math_round (clamp01 p * 100)"

subsection \<open>State\<close>

text \<open>An event of the provider's emitter, with the fields the handlers read.\<close>

record provider_event =
  evt_projectId :: projectId
  evt_type :: string
  evt_jobId :: jobId
  evt_progress :: real
  evt_resultUrl :: string
  evt_positivePrompt :: string
  evt_error :: string

text \<open>
  Each accepted generate request creates one pair of listeners (\<open>debugProject\<close>,
  \<open>debugJob\<close>), closed over its \<open>projectId\<close>. The pair is registered and removed together;
  \<open>bridge_id\<close> stands for the identity of the closures.
\<close>

record bridge =
  bridge_id :: nat
  bridge_pid :: projectId

text \<open>The two callbacks given to \<open>setTimeout\<close>.\<close>

datatype timer_action =
    CompletionTimer bridge
  | CleanupTimer projectId

text \<open>
  \<open>now\<close> is the clock in milliseconds; \<open>timers\<close> holds the armed timers with the time
  from which each may run; \<open>awaiting\<close> holds the calls of \<open>onJob\<close> suspended at
  \<open>await ensureJobResultUrl(...)\<close>.
\<close>

record server =
  now :: nat
  sseClients :: "projectId \<rightharpoonup> client list"
  activeProjects :: "projectId \<rightharpoonup> project"
  listeners :: "bridge list"
  timers :: "(nat \<times> timer_action) list"
  awaiting :: "(bridge \<times> provider_event) list"
  next_bridge :: nat

subsection \<open>emitToProject\<close>

text \<open>\<open>try { res.write(data); } catch {}\<close>: a write that throws leaves the stream as it was.\<close>

definition write_data :: "message \<Rightarrow> client \<Rightarrow> client" where
  "write_data d res = (if write_throws res then res else res\<lparr>received := received res @ [d]\<rparr>)"

definition emitToProject :: "projectId \<Rightarrow> payload \<Rightarrow> server \<Rightarrow> server" where
  "emitToProject projectId pl s =
     (case sseClients s projectId of
        None \<Rightarrow> s
      | Some clients \<Rightarrow>
          s\<lparr>sseClients := (sseClients s)(projectId \<mapsto> map (write_data (projectId, pl)) clients)\<rparr>)"

definition subscribers :: "server \<Rightarrow> projectId \<Rightarrow> client list" where
  "subscribers s p = (case sseClients s p of None \<Rightarrow> [] | Some clients \<Rightarrow> clients)"

subsection \<open>The handlers of one generate request\<close>

text \<open>\<open>detach\<close>: both listeners off, and a timer that deletes the registry entry.\<close>

definition detach :: "bridge \<Rightarrow> server \<Rightarrow> server" where
  "detach b s =
     s\<lparr>listeners := filter (\<lambda>l. l \<noteq> b) (listeners s),
       timers := timers s @ [(now s + 600000, CleanupTimer (bridge_pid b))]\<rparr>"

definition onProject :: "bridge \<Rightarrow> provider_event \<Rightarrow> server \<Rightarrow> server" where
  "onProject b evt s =
     (if evt_projectId evt \<noteq> bridge_pid b then s
      else if evt_type evt = ''completed''
      then s\<lparr>timers := timers s @ [(now s + 2000, CompletionTimer b)]\<rparr>
      else if evt_type evt = ''error''
      then detach b (emitToProject (bridge_pid b) (Failed (evt_error evt)) s)
      else s)"

text \<open>The callback of the 2000 ms timer.\<close>

definition completion_callback :: "bridge \<Rightarrow> server \<Rightarrow> server" where
  "completion_callback b s = detach b (emitToProject (bridge_pid b) Completed s)"

text \<open>The callback of the 600000 ms timer: \<open>activeProjects.delete(projectId)\<close>.\<close>

definition cleanup_callback :: "projectId \<Rightarrow> server \<Rightarrow> server" where
  "cleanup_callback p s = s\<lparr>activeProjects := (activeProjects s)(p := None)\<rparr>"

text \<open>
  \<open>onJob\<close> up to its first suspension: a progress event is relayed at once, a completed
  job waits for \<open>ensureJobResultUrl\<close>.
\<close>

definition onJob :: "bridge \<Rightarrow> provider_event \<Rightarrow> server \<Rightarrow> server" where
  "onJob b evt s =
     (if evt_projectId evt \<noteq> bridge_pid b then s
      else if evt_type evt = ''progress''
      then emitToProject (bridge_pid b)
             (Progress (evt_jobId evt) (progress_percent (evt_progress evt))) s
      else if evt_type evt = ''completed''
      then s\<lparr>awaiting := awaiting s @ [(b, evt)]\<rparr>
      else s)"

text \<open>
  The rest of \<open>onJob\<close>, run when the awaited promise resolves with \<open>resultUrl\<close>.
  \<open>ensureJobResultUrl\<close> is defined in no source file; its result is an input here.
\<close>

definition onJob_resume :: "bridge \<Rightarrow> provider_event \<Rightarrow> string \<Rightarrow> server \<Rightarrow> server" where
  "onJob_resume b evt resultUrl s =
     emitToProject (bridge_pid b)
       (JobCompleted (evt_jobId evt) resultUrl (evt_positivePrompt evt)) s"

subsection \<open>The generate handler\<close>

text \<open>
  The provider's answer to \<open>client.projects.create\<close> is a parameter: an error message or
  the created project. On success the project is stored under its id, the response is
  sent and the listeners are attached.
\<close>

definition handle_generate ::
  "request \<Rightarrow> (create_params \<Rightarrow> string + project) \<Rightarrow> server \<Rightarrow> server \<times> response" where
  "handle_generate req provider s =
     (if req_prompt req = [] then (s, Status400 ''Missing prompt'')
      else case provider (project_params req) of
        Inl msg \<Rightarrow> (s, Status500 (if msg = [] then ''Generation failed'' else msg))
      | Inr project \<Rightarrow>
          (let projectId = proj_id project;
               b = \<lparr>bridge_id = next_bridge s, bridge_pid = projectId\<rparr>
           in (s\<lparr>activeProjects := (activeProjects s)(projectId \<mapsto> project),
                  listeners := listeners s @ [b],
                  next_bridge := Suc (next_bridge s)\<rparr>,
               Json200 projectId (jobs_json (proj_jobs project)))))"

subsection \<open>The event loop\<close>

text \<open>
  What can happen next: time passes; the provider emits a \<open>project\<close> or a \<open>job\<close> event,
  which every attached listener receives in registration order; an armed timer whose time
  has come runs its callback (never before its delay has elapsed, possibly later); a
  suspended \<open>onJob\<close> resumes with the result URL; a generate request is handled.
\<close>

datatype label =
    Tick nat
  | EmitProject provider_event
  | EmitJob provider_event
  | Fire nat
  | Resume nat string
  | Generate request "string + project"

definition drop_nth :: "nat \<Rightarrow> 'a list \<Rightarrow> 'a list" where
  "drop_nth i xs = take i xs @ drop (Suc i) xs"

definition run_timer :: "timer_action \<Rightarrow> server \<Rightarrow> server" where
  "run_timer a s =
     (case a of CompletionTimer b \<Rightarrow> completion_callback b s
              | CleanupTimer p \<Rightarrow> cleanup_callback p s)"

fun step :: "label \<Rightarrow> server \<Rightarrow> server option" where
  "step (Tick d) s = Some (s\<lparr>now := now s + d\<rparr>)"
| "step (EmitProject evt) s = Some (fold (\<lambda>b. onProject b evt) (listeners s) s)"
| "step (EmitJob evt) s = Some (fold (\<lambda>b. onJob b evt) (listeners s) s)"
| "step (Fire i) s =
     (if i < length (timers s) \<and> fst (timers s ! i) \<le> now s
      then Some (run_timer (snd (timers s ! i)) (s\<lparr>timers := drop_nth i (timers s)\<rparr>))
      else None)"
| "step (Resume i resultUrl) s =
     (if i < length (awaiting s)
      then Some (onJob_resume (fst (awaiting s ! i)) (snd (awaiting s ! i)) resultUrl
                   (s\<lparr>awaiting := drop_nth i (awaiting s)\<rparr>))
      else None)"
| "step (Generate req r) s = Some (fst (handle_generate req (\<lambda>_. r) s))"

fun exec :: "label list \<Rightarrow> server \<Rightarrow> server option" where
  "exec [] s = Some s"
| "exec (l # ls) s = (case step l s of None \<Rightarrow> None | Some s' \<Rightarrow> exec ls s')"


section \<open>What is observed of a run\<close>

text \<open>The streams of a project, in the order of the set, and what each has received.\<close>

definition delivered :: "server \<Rightarrow> projectId \<Rightarrow> message list list" where
  "delivered s p = map received (subscribers s p)"

text \<open>What \<open>delivered\<close> becomes when the payloads \<open>pls\<close> are broadcast in this order:
  every stream whose write succeeds has them appended, in order and all of them.\<close>

definition appended :: "projectId \<Rightarrow> payload list \<Rightarrow> client \<Rightarrow> message list" where
  "appended p pls res =
     (if write_throws res then received res else received res @ map (Pair p) pls)"

text \<open>How often each stream of the project has been sent the \<open>completed\<close> event.\<close>

definition completed_seen :: "server \<Rightarrow> projectId \<Rightarrow> nat list" where
  "completed_seen s p = map (\<lambda>res. count_list (received res) (p, Completed)) (subscribers s p)"

text \<open>Which project a timer completes, which project's entry a timer deletes.\<close>

fun completes :: "projectId \<Rightarrow> timer_action \<Rightarrow> bool" where
  "completes p (CompletionTimer b) = (bridge_pid b = p)"
| "completes p (CleanupTimer q) = False"

fun cleans :: "projectId \<Rightarrow> timer_action \<Rightarrow> bool" where
  "cleans p (CleanupTimer q) = (q = p)"
| "cleans p (CompletionTimer b) = False"

text \<open>The armed timers of a kind, as the times from which they may run.\<close>

definition completion_due :: "server \<Rightarrow> projectId \<Rightarrow> nat list" where
  "completion_due s p = map fst (filter (\<lambda>t. completes p (snd t)) (timers s))"

definition cleanup_due :: "server \<Rightarrow> projectId \<Rightarrow> nat list" where
  "cleanup_due s p = map fst (filter (\<lambda>t. cleans p (snd t)) (timers s))"

text \<open>The listeners attached for a project.\<close>

definition attached :: "server \<Rightarrow> projectId \<Rightarrow> bridge list" where
  "attached s p = filter (\<lambda>l. bridge_pid l = p) (listeners s)"



text \<open>
  The lifecycle in the spec's words: a project is pending, then running, then completed
  or failed, and a terminal state is final. Read off the events sent for a project, that
  is: nothing follows a \<open>completed\<close> or a \<open>failed\<close> event.
\<close>

fun terminal :: "payload \<Rightarrow> bool" where
  "terminal Completed = True"
| "terminal (Failed e) = True"
| "terminal pl = False"

fun spec_lifecycle_final :: "payload list \<Rightarrow> bool" where
  "spec_lifecycle_final [] = True"
| "spec_lifecycle_final (pl # pls) = (if terminal pl then pls = [] else spec_lifecycle_final pls)"

text \<open>A run, seen from outside: what the streams of a project have received at its end;
  the clock, the registry entry and the pending cleanups of a project at its end.\<close>

definition run_delivered :: "label list \<Rightarrow> server \<Rightarrow> projectId \<Rightarrow> message list list option" where
  "run_delivered ls s p =
     (case exec ls s of None \<Rightarrow> None | Some s' \<Rightarrow> Some (delivered s' p))"





section \<open>Example data\<close>

definition ex_bridge :: bridge where
  "ex_bridge = \<lparr>bridge_id = 0, bridge_pid = ''P1''\<rparr>"

definition ex_project :: project where
  "ex_project = \<lparr>proj_id = ''P1'', proj_jobs = [\<lparr>job_id = ''J1''\<rparr>, \<lparr>job_id = ''J2''\<rparr>]\<rparr>"

definition ex_viewer :: client where
  "ex_viewer = \<lparr>client_id = 1, write_throws = False, received = []\<rparr>"

definition ex_gone :: client where
  "ex_gone = \<lparr>client_id = 2, write_throws = True, received = []\<rparr>"

text \<open>Project P1 registered, its listeners attached, one viewer connected.\<close>

definition ex_server :: server where
  "ex_server =
     \<lparr>now = 0,
      sseClients = [''P1'' \<mapsto> [ex_viewer]],
      activeProjects = [''P1'' \<mapsto> ex_project],
      listeners = [ex_bridge],
      timers = [],
      awaiting = [],
      next_bridge = 1\<rparr>"

definition ex_event :: "string \<Rightarrow> jobId \<Rightarrow> real \<Rightarrow> provider_event" where
  "ex_event ty jid p =
     \<lparr>evt_projectId = ''P1'', evt_type = ty, evt_jobId = jid, evt_progress = p,
      evt_resultUrl = [], evt_positivePrompt = ''luffy'', evt_error = ''boom''\<rparr>"

definition ex_request :: request where
  "ex_request = \<lparr>req_prompt = ''battle scene'', req_character = [], req_sceneType = [], req_seed = None\<rparr>"

definition ex_two_viewers :: server where
  "ex_two_viewers = ex_server\<lparr>sseClients := [''P1'' \<mapsto> [ex_gone, ex_viewer]]\<rparr>"

text \<open>A project with the id of the registered one and another job list.\<close>

definition ex_project_again :: project where
  "ex_project_again = \<lparr>proj_id = ''P1'', proj_jobs = [\<lparr>job_id = ''J9''\<rparr>]\<rparr>"

text \<open>The server before any request.\<close>

definition ex_idle :: server where
  "ex_idle =
     \<lparr>now = 0, sseClients = Map.empty, activeProjects = Map.empty, listeners = [],
      timers = [], awaiting = [], next_bridge = 0\<rparr>"

text \<open>The example server at clock value \<open>t\<close> with the completion timer of P1 armed at 0.\<close>

definition ex_armed :: "nat \<Rightarrow> server" where
  "ex_armed t = ex_server\<lparr>now := t, timers := [(2000, CompletionTimer ex_bridge)]\<rparr>"

text \<open>The provider reports the project completed and, one second later, failed; the
  completion timer runs when its 2000 ms have passed.\<close>

definition ex_completed_then_error :: "label list" where
  "ex_completed_then_error =
     [EmitProject (ex_event ''completed'' [] 0), Tick 1000,
      EmitProject (ex_event ''error'' [] 0), Tick 1000, Fire 0]"


text \<open>The example server after its listeners were detached, the completion timer still
  armed and due.\<close>

definition ex_detached :: server where
  "ex_detached = (ex_armed 2000)\<lparr>listeners := []\<rparr>"

definition ex_other_project :: project where
  "ex_other_project = \<lparr>proj_id = ''P2'', proj_jobs = []\<rparr>"

section \<open>Basic facts\<close>



lemma subscribers_emitToProject:
  "subscribers (emitToProject p pl s) q =
     (if q = p then map (write_data (p, pl)) (subscribers s p) else subscribers s q)"
  by (simp add: subscribers_def emitToProject_def split: option.splits)

lemma emitToProject_no_subscribers:
  "subscribers s p = [] \<Longrightarrow> emitToProject p pl s = s"
  by (auto simp: subscribers_def emitToProject_def map_upd_triv split: option.splits)

lemma emitToProject_fields [simp]:
  "now (emitToProject p pl s) = now s"
  "activeProjects (emitToProject p pl s) = activeProjects s"
  "listeners (emitToProject p pl s) = listeners s"
  "timers (emitToProject p pl s) = timers s"
  "awaiting (emitToProject p pl s) = awaiting s"
  "next_bridge (emitToProject p pl s) = next_bridge s"
  by (simp_all add: emitToProject_def split: option.splits)

subsection \<open>The variations loop\<close>














subsection \<open>Handlers, field by field\<close>

lemma subscribers_cong: "sseClients s = sseClients t \<Longrightarrow> subscribers s p = subscribers t p"
  by (simp add: subscribers_def)

lemma detach_fields [simp]:
  "now (detach b s) = now s"
  "sseClients (detach b s) = sseClients s"
  "activeProjects (detach b s) = activeProjects s"
  "listeners (detach b s) = filter (\<lambda>l. l \<noteq> b) (listeners s)"
  "timers (detach b s) = timers s @ [(now s + 600000, CleanupTimer (bridge_pid b))]"
  "awaiting (detach b s) = awaiting s"
  "next_bridge (detach b s) = next_bridge s"
  by (simp_all add: detach_def)

lemma subscribers_detach [simp]: "subscribers (detach b s) p = subscribers s p"
  by (simp add: subscribers_def)

lemma delivered_emitToProject:
  "delivered (emitToProject q pl s) p =
     (if p = q then map (appended p [pl]) (subscribers s p) else delivered s p)"
  by (simp add: delivered_def subscribers_emitToProject appended_def write_data_def comp_def)

lemma subscribers_emitToProject_static:
  "map client_id (subscribers (emitToProject q pl s) p) = map client_id (subscribers s p)"
  "map write_throws (subscribers (emitToProject q pl s) p) = map write_throws (subscribers s p)"
  by (simp_all add: subscribers_emitToProject write_data_def comp_def)

text \<open>A listener of another project ignores the event.\<close>

lemma onProject_other: "evt_projectId evt \<noteq> bridge_pid b \<Longrightarrow> onProject b evt s = s"
  by (simp add: onProject_def)

lemma onJob_other: "evt_projectId evt \<noteq> bridge_pid b \<Longrightarrow> onJob b evt s = s"
  by (simp add: onJob_def)

lemma fold_onProject_none:
  "filter (\<lambda>l. bridge_pid l = evt_projectId evt) ls = [] \<Longrightarrow>
     fold (\<lambda>l. onProject l evt) ls s = s"
  by (induction ls arbitrary: s) (auto simp: onProject_other split: if_splits)

lemma fold_onJob_none:
  "filter (\<lambda>l. bridge_pid l = evt_projectId evt) ls = [] \<Longrightarrow>
     fold (\<lambda>l. onJob l evt) ls s = s"
  by (induction ls arbitrary: s) (auto simp: onJob_other split: if_splits)

text \<open>With one listener attached for the project, an emitted event is one handler call.\<close>

lemma fold_onProject_single:
  "filter (\<lambda>l. bridge_pid l = evt_projectId evt) ls = [b] \<Longrightarrow>
     fold (\<lambda>l. onProject l evt) ls s = onProject b evt s"
proof (induction ls arbitrary: s)
  case Nil
  then show ?case by simp
next
  case (Cons l ls)
  show ?case
  proof (cases "bridge_pid l = evt_projectId evt")
    case True
    with Cons.prems have "l = b" and "filter (\<lambda>l. bridge_pid l = evt_projectId evt) ls = []"
      by simp_all
    then show ?thesis
      by (simp add: fold_onProject_none)
  next
    case False
    with Cons show ?thesis by (simp add: onProject_other)
  qed
qed


lemma attached_single_pid: "attached s p = [b] \<Longrightarrow> bridge_pid b = p \<and> b \<in> set (listeners s)"
proof -
  assume "attached s p = [b]"
  then have "b \<in> set (filter (\<lambda>l. bridge_pid l = p) (listeners s))"
    by (simp add: attached_def)
  then show ?thesis by simp
qed

subsection \<open>What a handler leaves alone\<close>

lemma completed_seen_emitToProject:
  "q \<noteq> p \<or> pl \<noteq> Completed \<Longrightarrow> completed_seen (emitToProject q pl s) p = completed_seen s p"
  by (auto simp: completed_seen_def subscribers_emitToProject write_data_def)

lemma completed_seen_cong:
  "sseClients s = sseClients t \<Longrightarrow> completed_seen s p = completed_seen t p"
  by (simp add: completed_seen_def subscribers_def)

lemma onProject_fields [simp]:
  "now (onProject b evt s) = now s"
  "activeProjects (onProject b evt s) = activeProjects s"
  "awaiting (onProject b evt s) = awaiting s"
  "next_bridge (onProject b evt s) = next_bridge s"
  by (simp_all add: onProject_def)

lemma onJob_fields [simp]:
  "now (onJob b evt s) = now s"
  "activeProjects (onJob b evt s) = activeProjects s"
  "listeners (onJob b evt s) = listeners s"
  "timers (onJob b evt s) = timers s"
  "next_bridge (onJob b evt s) = next_bridge s"
  by (simp_all add: onJob_def)

lemma onJob_resume_fields [simp]:
  "now (onJob_resume b evt u s) = now s"
  "activeProjects (onJob_resume b evt u s) = activeProjects s"
  "listeners (onJob_resume b evt u s) = listeners s"
  "timers (onJob_resume b evt u s) = timers s"
  "awaiting (onJob_resume b evt u s) = awaiting s"
  "next_bridge (onJob_resume b evt u s) = next_bridge s"
  by (simp_all add: onJob_resume_def)

lemma run_timer_fields [simp]:
  "now (run_timer a s) = now s"
  "awaiting (run_timer a s) = awaiting s"
  "next_bridge (run_timer a s) = next_bridge s"
  by (simp_all add: run_timer_def completion_callback_def cleanup_callback_def
      split: timer_action.splits)

lemma onProject_listeners: "set (listeners (onProject b evt s)) \<subseteq> set (listeners s)"
  by (auto simp: onProject_def)

lemma run_timer_listeners: "set (listeners (run_timer a s)) \<subseteq> set (listeners s)"
  by (auto simp: run_timer_def completion_callback_def cleanup_callback_def
      split: timer_action.splits)

lemma onProject_completed_seen: "completed_seen (onProject b evt s) p = completed_seen s p"
proof -
  have "completed_seen (detach b t) p = completed_seen t p" for t
    by (rule completed_seen_cong) simp
  moreover have "completed_seen (s\<lparr>timers := ts\<rparr>) p = completed_seen s p" for ts
    by (rule completed_seen_cong) simp
  ultimately show ?thesis
    by (simp add: onProject_def completed_seen_emitToProject)
qed

lemma onJob_completed_seen: "completed_seen (onJob b evt s) p = completed_seen s p"
proof -
  have "completed_seen (s\<lparr>awaiting := ts\<rparr>) p = completed_seen s p" for ts
    by (rule completed_seen_cong) simp
  then show ?thesis
    by (simp add: onJob_def completed_seen_emitToProject)
qed

lemma onJob_resume_completed_seen:
  "completed_seen (onJob_resume b evt u s) p = completed_seen s p"
  by (simp add: onJob_resume_def completed_seen_emitToProject)

subsection \<open>Armed timers\<close>

lemma completion_due_onProject:
  "set (completion_due (onProject b evt s) p) \<subseteq> set (completion_due s p) \<union> {now s + 2000}"
  by (auto simp: completion_due_def onProject_def)

lemma cleanup_due_onProject:
  "set (cleanup_due (onProject b evt s) p) \<subseteq> set (cleanup_due s p) \<union> {now s + 600000}"
  by (auto simp: cleanup_due_def onProject_def)

lemma set_drop_nth: "set (drop_nth i xs) \<subseteq> set xs"
proof -
  have "set (take i xs) \<subseteq> set xs" by (rule set_take_subset)
  moreover have "set (drop (Suc i) xs) \<subseteq> set xs" by (rule set_drop_subset)
  ultimately show ?thesis by (auto simp: drop_nth_def)
qed

lemma completion_due_run_timer:
  "set (completion_due (run_timer a (s\<lparr>timers := drop_nth i (timers s)\<rparr>)) p)
     \<subseteq> set (completion_due s p)"
  using set_drop_nth [of i "timers s"]
  by (auto simp: completion_due_def run_timer_def completion_callback_def cleanup_callback_def
      split: timer_action.splits)


subsection \<open>An emitted event, over all listeners\<close>

lemma fold_onProject_keeps:
  "now (fold (\<lambda>b. onProject b evt) ls s) = now s
   \<and> activeProjects (fold (\<lambda>b. onProject b evt) ls s) = activeProjects s
   \<and> next_bridge (fold (\<lambda>b. onProject b evt) ls s) = next_bridge s
   \<and> completed_seen (fold (\<lambda>b. onProject b evt) ls s) p = completed_seen s p
   \<and> set (listeners (fold (\<lambda>b. onProject b evt) ls s)) \<subseteq> set (listeners s)
   \<and> set (completion_due (fold (\<lambda>b. onProject b evt) ls s) p)
        \<subseteq> set (completion_due s p) \<union> {now s + 2000}
   \<and> set (cleanup_due (fold (\<lambda>b. onProject b evt) ls s) p)
        \<subseteq> set (cleanup_due s p) \<union> {now s + 600000}"
proof (induction ls arbitrary: s)
  case Nil
  show ?case by auto
next
  case (Cons l ls)
  note IH = Cons.IH [of "onProject l evt s"]
  show ?case
    using IH onProject_listeners [of l evt s] completion_due_onProject [of l evt s p]
      cleanup_due_onProject [of l evt s p]
    by (simp add: onProject_completed_seen) blast
qed

lemma fold_onJob_keeps:
  "now (fold (\<lambda>b. onJob b evt) ls s) = now s
   \<and> activeProjects (fold (\<lambda>b. onJob b evt) ls s) = activeProjects s
   \<and> next_bridge (fold (\<lambda>b. onJob b evt) ls s) = next_bridge s
   \<and> completed_seen (fold (\<lambda>b. onJob b evt) ls s) p = completed_seen s p
   \<and> listeners (fold (\<lambda>b. onJob b evt) ls s) = listeners s
   \<and> timers (fold (\<lambda>b. onJob b evt) ls s) = timers s"
  by (induction ls arbitrary: s) (simp_all add: onJob_completed_seen)

lemma handle_generate_keeps:
  "now (fst (handle_generate req pr s)) = now s
   \<and> sseClients (fst (handle_generate req pr s)) = sseClients s
   \<and> timers (fst (handle_generate req pr s)) = timers s
   \<and> next_bridge s \<le> next_bridge (fst (handle_generate req pr s))"
  by (simp add: handle_generate_def Let_def split: sum.splits)

subsection \<open>One step of the event loop\<close>

lemma step_now_mono:
  assumes "step l s = Some s'"
  shows "now s \<le> now s'"
proof (cases l)
  case (EmitProject evt)
  with assms show ?thesis using fold_onProject_keeps [of evt "listeners s" s] by auto
next
  case (EmitJob evt)
  with assms show ?thesis using fold_onJob_keeps [of evt "listeners s" s] by auto
next
  case (Generate req r)
  with assms show ?thesis using handle_generate_keeps [of req "\<lambda>_. r" s] by auto
qed (use assms in \<open>auto split: if_splits\<close>)

lemma run_timer_completed_seen:
  assumes "\<not> completes p a"
  shows "completed_seen (run_timer a s) p = completed_seen s p"
proof (cases a)
  case (CompletionTimer b)
  have "completed_seen (detach b t) p = completed_seen t p" for t
    by (rule completed_seen_cong) simp
  with CompletionTimer assms show ?thesis
    by (simp add: run_timer_def completion_callback_def completed_seen_emitToProject)
next
  case (CleanupTimer q)
  have "completed_seen (cleanup_callback q s) p = completed_seen s p"
    by (rule completed_seen_cong) (simp add: cleanup_callback_def)
  with CleanupTimer show ?thesis by (simp add: run_timer_def)
qed

lemma fired_completion_is_due:
  assumes "i < length (timers s)" and "completes p (snd (timers s ! i))"
  shows "fst (timers s ! i) \<in> set (completion_due s p)"
proof -
  have "timers s ! i \<in> set (filter (\<lambda>t. completes p (snd t)) (timers s))"
    using assms by simp
  then show ?thesis
    unfolding completion_due_def by (metis image_eqI set_map)
qed


text \<open>Completion timers armed from now on run no earlier than 2000 ms from now.\<close>

lemma step_completion_due:
  assumes st: "step l s = Some s'"
    and due: "\<forall>d \<in> set (completion_due s p). T \<le> d"
    and T: "T \<le> now s + 2000"
  shows "\<forall>d \<in> set (completion_due s' p). T \<le> d"
proof (cases l)
  case (Tick d)
  with st have "completion_due s' p = completion_due s p" by (auto simp: completion_due_def)
  with due show ?thesis by simp
next
  case (EmitProject evt)
  with st due T show ?thesis
    using fold_onProject_keeps [of evt "listeners s" s p] by auto
next
  case (EmitJob evt)
  with st have "completion_due s' p = completion_due s p"
    using fold_onJob_keeps [of evt "listeners s" s p] by (auto simp: completion_due_def)
  with due show ?thesis by simp
next
  case (Fire i)
  with st due show ?thesis
    using completion_due_run_timer [where a = "snd (timers s ! i)" and s = s and i = i and p = p]
    by (auto split: if_splits)
next
  case (Resume i u)
  with st have "completion_due s' p = completion_due s p"
    by (auto simp: completion_due_def split: if_splits)
  with due show ?thesis by simp
next
  case (Generate req r)
  with st have "completion_due s' p = completion_due s p"
    using handle_generate_keeps [of req "\<lambda>_. r" s] by (auto simp: completion_due_def)
  with due show ?thesis by simp
qed

lemma step_completed_seen:
  assumes st: "step l s = Some s'"
    and due: "\<forall>d \<in> set (completion_due s p). T \<le> d"
    and T: "now s < T"
  shows "completed_seen s' p = completed_seen s p"
proof (cases l)
  case (Tick d)
  with st show ?thesis by (auto intro: completed_seen_cong)
next
  case (EmitProject evt)
  with st show ?thesis
    using fold_onProject_keeps [of evt "listeners s" s p] by auto
next
  case (EmitJob evt)
  with st show ?thesis
    using fold_onJob_keeps [of evt "listeners s" s p] by auto
next
  case (Fire i)
  with st have i: "i < length (timers s)" and le: "fst (timers s ! i) \<le> now s"
    and s': "s' = run_timer (snd (timers s ! i)) (s\<lparr>timers := drop_nth i (timers s)\<rparr>)"
    by (auto split: if_splits)
  have "\<not> completes p (snd (timers s ! i))"
  proof
    assume "completes p (snd (timers s ! i))"
    from fired_completion_is_due [OF i this] due have "T \<le> fst (timers s ! i)" by blast
    with le T show False by simp
  qed
  from run_timer_completed_seen [OF this] have
    "completed_seen s' p = completed_seen (s\<lparr>timers := drop_nth i (timers s)\<rparr>) p"
    unfolding s' .
  also have "\<dots> = completed_seen s p"
    by (rule completed_seen_cong) simp
  finally show ?thesis .
next
  case (Resume i u)
  with st have s': "s' = onJob_resume (fst (awaiting s ! i)) (snd (awaiting s ! i)) u
                           (s\<lparr>awaiting := drop_nth i (awaiting s)\<rparr>)"
    by (auto split: if_splits)
  have "completed_seen s' p = completed_seen (s\<lparr>awaiting := drop_nth i (awaiting s)\<rparr>) p"
    unfolding s' by (rule onJob_resume_completed_seen)
  also have "\<dots> = completed_seen s p"
    by (rule completed_seen_cong) simp
  finally show ?thesis .
next
  case (Generate req r)
  with st show ?thesis
    using handle_generate_keeps [of req "\<lambda>_. r" s] by (auto intro: completed_seen_cong)
qed






text \<open>A detached listener is not attached again: a new request gets a new listener.\<close>

lemma step_detached:
  assumes st: "step l s = Some s'"
    and off: "b \<notin> set (listeners s)" and old: "bridge_id b < next_bridge s"
  shows "b \<notin> set (listeners s') \<and> bridge_id b < next_bridge s'"
proof (cases l)
  case (Tick d)
  with st off old show ?thesis by auto
next
  case (EmitProject evt)
  with st off old show ?thesis
    using fold_onProject_keeps [of evt "listeners s" s "bridge_pid b"] by auto
next
  case (EmitJob evt)
  with st off old show ?thesis
    using fold_onJob_keeps [of evt "listeners s" s "bridge_pid b"] by auto
next
  case (Fire i)
  with st off old show ?thesis
    using run_timer_listeners [of "snd (timers s ! i)" "s\<lparr>timers := drop_nth i (timers s)\<rparr>"]
    by (auto split: if_splits)
next
  case (Resume i u)
  with st off old show ?thesis by (auto split: if_splits)
next
  case (Generate req r)
  with st off old show ?thesis
    by (cases r) (auto simp: handle_generate_def Let_def split: if_splits)
qed

subsection \<open>Runs\<close>

lemma exec_now_mono: "exec ls s = Some s' \<Longrightarrow> now s \<le> now s'"
proof (induction ls arbitrary: s)
  case Nil
  then show ?case by simp
next
  case (Cons l ls)
  then obtain s1 where s1: "step l s = Some s1" and rest: "exec ls s1 = Some s'"
    by (auto split: option.splits)
  from step_now_mono [OF s1] Cons.IH [OF rest] show ?case by simp
qed

lemma exec_completed_seen:
  assumes "exec ls s = Some s'"
    and "\<forall>d \<in> set (completion_due s p). T \<le> d"
    and "T \<le> now s + 2000"
    and "now s' < T"
  shows "completed_seen s' p = completed_seen s p"
  using assms
proof (induction ls arbitrary: s)
  case Nil
  then show ?case by simp
next
  case (Cons l ls)
  then obtain s1 where s1: "step l s = Some s1" and rest: "exec ls s1 = Some s'"
    by (auto split: option.splits)
  have mono: "now s \<le> now s1" "now s1 \<le> now s'"
    using step_now_mono [OF s1] exec_now_mono [OF rest] by simp_all
  have due1: "\<forall>d \<in> set (completion_due s1 p). T \<le> d"
    using step_completion_due [OF s1 Cons.prems(2) Cons.prems(3)] .
  have "completed_seen s' p = completed_seen s1 p"
    using Cons.IH [OF rest due1] Cons.prems(3,4) mono by simp
  moreover have "completed_seen s1 p = completed_seen s p"
    using step_completed_seen [OF s1 Cons.prems(2)] mono Cons.prems(4) by simp
  ultimately show ?case by simp
qed




lemma exec_detached:
  assumes "exec ls s = Some s'"
    and "b \<notin> set (listeners s)" and "bridge_id b < next_bridge s"
  shows "b \<notin> set (listeners s')"
  using assms
proof (induction ls arbitrary: s)
  case Nil
  then show ?case by simp
next
  case (Cons l ls)
  then obtain s1 where s1: "step l s = Some s1" and rest: "exec ls s1 = Some s'"
    by (auto split: option.splits)
  from step_detached [OF s1 Cons.prems(2,3)] Cons.IH [OF rest] show ?case by simp
qed

section \<open>Claims\<close>






text \<open>
  C3 (as the code has it). The bridge keeps no lifecycle state; what it has is the
  attachment of its listeners. Once the listeners of a project are detached, every
  further provider event for that project, terminal or not, is dropped: the step
  succeeds and changes nothing. \<open>detach\<close> removes the listener, and a removed listener
  (one created by an earlier request, so with an id below the counter) is never attached
  again, however the run goes on. Nothing that was scheduled is cancelled: a completion
  timer that is due runs its callback whether or not its listener is still attached.
\<close>

theorem C3_detached_ignores_events:
  "(attached s (evt_projectId evt) = [] \<longrightarrow>
      step (EmitProject evt) s = Some s \<and> step (EmitJob evt) s = Some s)
   \<and> b \<notin> set (listeners (detach b s))
   \<and> (\<forall>ls s'. b \<notin> set (listeners s) \<and> bridge_id b < next_bridge s \<and> exec ls s = Some s' \<longrightarrow>
         b \<notin> set (listeners s'))
   \<and> (\<forall>i d. i < length (timers s) \<and> timers s ! i = (d, CompletionTimer b) \<and> d \<le> now s \<longrightarrow>
         step (Fire i) s
           = Some (detach b (emitToProject (bridge_pid b) Completed
                               (s\<lparr>timers := drop_nth i (timers s)\<rparr>))))"
proof (intro conjI allI impI)
  assume "attached s (evt_projectId evt) = []"
  then have none: "filter (\<lambda>l. bridge_pid l = evt_projectId evt) (listeners s) = []"
    by (simp add: attached_def)
  show "step (EmitProject evt) s = Some s"
    by (simp add: fold_onProject_none [OF none])
  show "step (EmitJob evt) s = Some s"
    by (simp add: fold_onJob_none [OF none])
next
  show "b \<notin> set (listeners (detach b s))" by simp
next
  fix ls and s' :: server
  assume "b \<notin> set (listeners s) \<and> bridge_id b < next_bridge s \<and> exec ls s = Some s'"
  then show "b \<notin> set (listeners s')"
    using exec_detached [of ls s s' b] by blast
next
  fix i d
  assume "i < length (timers s) \<and> timers s ! i = (d, CompletionTimer b) \<and> d \<le> now s"
  then show "step (Fire i) s
           = Some (detach b (emitToProject (bridge_pid b) Completed
                               (s\<lparr>timers := drop_nth i (timers s)\<rparr>)))"
    by (simp add: run_timer_def completion_callback_def)
qed

theorem C3_detached_ignores_events_witness:
  "step (EmitProject (ex_event ''error'' [] 0)) ex_detached = Some ex_detached
   \<and> step (EmitJob (ex_event ''progress'' ''J1'' 1)) ex_detached = Some ex_detached
   \<and> (\<exists>s'. exec [Generate ex_request (Inr ex_other_project),
                  EmitJob (ex_event ''progress'' ''J1'' 1)] ex_detached = Some s'
          \<and> ex_bridge \<notin> set (listeners s'))
   \<and> step (Fire 0) ex_detached
       = Some (detach ex_bridge (emitToProject ''P1'' Completed (ex_detached\<lparr>timers := []\<rparr>)))"
proof -
  have att: "attached ex_detached (evt_projectId (ex_event ty j x)) = []" for ty j x
    by (simp add: attached_def ex_detached_def)
  have a: "step (EmitProject (ex_event ''error'' [] 0)) ex_detached = Some ex_detached"
    using C3_detached_ignores_events [of ex_detached "ex_event ''error'' [] 0"] att by blast
  have b: "step (EmitJob (ex_event ''progress'' ''J1'' 1)) ex_detached = Some ex_detached"
    using C3_detached_ignores_events [of ex_detached "ex_event ''progress'' ''J1'' 1"] att
    by blast
  have off: "ex_bridge \<notin> set (listeners ex_detached)"
    and old: "bridge_id ex_bridge < next_bridge ex_detached"
    by (simp_all add: ex_detached_def ex_armed_def ex_server_def ex_bridge_def)
  obtain s' where run: "exec [Generate ex_request (Inr ex_other_project),
                  EmitJob (ex_event ''progress'' ''J1'' 1)] ex_detached = Some s'"
    by simp
  with off old have c: "ex_bridge \<notin> set (listeners s')"
    using C3_detached_ignores_events [of ex_detached _ ex_bridge] by blast
  have t: "0 < length (timers ex_detached)
           \<and> timers ex_detached ! 0 = (2000, CompletionTimer ex_bridge)
           \<and> 2000 \<le> now ex_detached"
    by (simp add: ex_detached_def ex_armed_def)
  have "step (Fire 0) ex_detached
       = Some (detach ex_bridge (emitToProject (bridge_pid ex_bridge) Completed
                 (ex_detached\<lparr>timers := drop_nth 0 (timers ex_detached)\<rparr>)))"
    using C3_detached_ignores_events [of ex_detached _ ex_bridge] t by blast
  moreover have "drop_nth 0 (timers ex_detached) = []"
    by (simp add: drop_nth_def ex_detached_def ex_armed_def)
  moreover have "bridge_pid ex_bridge = ''P1''" by (simp add: ex_bridge_def)
  ultimately have d: "step (Fire 0) ex_detached
       = Some (detach ex_bridge (emitToProject ''P1'' Completed (ex_detached\<lparr>timers := []\<rparr>)))"
    by simp
  from a b run c d show ?thesis by blast
qed

text \<open>
  The provider reports the project completed and, a second later, failed. The stream
  receives \<open>failed\<close> at once and \<open>completed\<close> when the timer runs: a terminal event is
  followed by another one, which the lifecycle of the spec excludes.
\<close>

theorem C3_failed_then_completed:
  "run_delivered ex_completed_then_error ex_server ''P1''
     = Some [[(''P1'', Failed ''boom''), (''P1'', Completed)]]
   \<and> \<not> spec_lifecycle_final [Failed ''boom'', Completed]"
  by (simp add: run_delivered_def ex_completed_then_error_def ex_server_def ex_event_def
      ex_bridge_def ex_viewer_def delivered_def subscribers_def onProject_def detach_def
      emitToProject_def run_timer_def completion_callback_def drop_nth_def write_data_def)

text \<open>
  C4. When the provider emits a project-level \<open>completed\<close> event for a project whose
  listeners are attached, the step sends nothing and detaches nothing: it only arms a
  timer for 2000 ms later. The timer cannot run before the 2000 ms have passed; when it
  runs it broadcasts \<open>completed\<close> and detaches the listeners. So, when no earlier
  completion is pending, however the run goes on, no stream of the project has been sent
  \<open>completed\<close> while fewer than 2000 ms have passed since the notification.
\<close>

theorem C4_completion_delay:
  assumes one: "attached s (evt_projectId evt) = [b]"
    and ty: "evt_type evt = ''completed''"
  shows "step (EmitProject evt) s
           = Some (s\<lparr>timers := timers s @ [(now s + 2000, CompletionTimer b)]\<rparr>)
         \<and> (\<forall>ls s'. completion_due s (evt_projectId evt) = []
               \<and> exec (EmitProject evt # ls) s = Some s' \<and> now s' < now s + 2000 \<longrightarrow>
               completed_seen s' (evt_projectId evt) = completed_seen s (evt_projectId evt))
         \<and> (\<forall>s' i. i < length (timers s') \<and> timers s' ! i = (now s + 2000, CompletionTimer b) \<longrightarrow>
               (now s' < now s + 2000 \<longrightarrow> step (Fire i) s' = None)
               \<and> (now s + 2000 \<le> now s' \<longrightarrow>
                    (\<exists>s''. step (Fire i) s' = Some s''
                       \<and> delivered s'' (evt_projectId evt)
                           = map (appended (evt_projectId evt) [Completed])
                               (subscribers s' (evt_projectId evt))
                       \<and> b \<notin> set (listeners s''))))"
proof (intro conjI allI impI)
  let ?p = "evt_projectId evt"
  let ?s1 = "s\<lparr>timers := timers s @ [(now s + 2000, CompletionTimer b)]\<rparr>"
  have pid: "bridge_pid b = ?p"
    using attached_single_pid [OF one] by simp
  have "onProject b evt s = ?s1"
    using pid ty by (simp add: onProject_def)
  then show st: "step (EmitProject evt) s = Some ?s1"
    using one by (simp add: attached_def fold_onProject_single)
  {
    fix ls and s' :: server
    assume all: "completion_due s (evt_projectId evt) = []
               \<and> exec (EmitProject evt # ls) s = Some s' \<and> now s' < now s + 2000"
    then have fresh: "completion_due s (evt_projectId evt) = []"
      and run: "exec (EmitProject evt # ls) s = Some s' \<and> now s' < now s + 2000"
      by simp_all
    from run st have rest: "exec ls ?s1 = Some s'" by simp
    have due: "\<forall>d \<in> set (completion_due ?s1 ?p). now s + 2000 \<le> d"
      using fresh by (simp add: completion_due_def)
    have "completed_seen s' ?p = completed_seen ?s1 ?p"
      using exec_completed_seen [OF rest due] run by simp
    also have "\<dots> = completed_seen s ?p"
      by (rule completed_seen_cong) simp
    finally show "completed_seen s' ?p = completed_seen s ?p" .
  }
  {
    fix s' :: server and i :: nat
    assume t: "i < length (timers s') \<and> timers s' ! i = (now s + 2000, CompletionTimer b)"
    {
      assume "now s' < now s + 2000"
      with t show "step (Fire i) s' = None" by simp
    }
    {
      assume late: "now s + 2000 \<le> now s'"
      let ?s2 = "detach b (emitToProject ?p Completed (s'\<lparr>timers := drop_nth i (timers s')\<rparr>))"
      have "step (Fire i) s' = Some ?s2"
        using t late by (simp add: run_timer_def completion_callback_def pid)
      moreover have "delivered ?s2 ?p = map (appended ?p [Completed]) (subscribers s' ?p)"
      proof -
        have "delivered ?s2 ?p
                = delivered (emitToProject ?p Completed (s'\<lparr>timers := drop_nth i (timers s')\<rparr>)) ?p"
          by (simp add: delivered_def)
        also have "\<dots> = map (appended ?p [Completed])
                            (subscribers (s'\<lparr>timers := drop_nth i (timers s')\<rparr>) ?p)"
          by (simp add: delivered_emitToProject)
        also have "subscribers (s'\<lparr>timers := drop_nth i (timers s')\<rparr>) ?p = subscribers s' ?p"
          by (rule subscribers_cong) simp
        finally show ?thesis .
      qed
      moreover have "b \<notin> set (listeners ?s2)" by simp
      ultimately show "\<exists>s''. step (Fire i) s' = Some s''
                       \<and> delivered s'' ?p = map (appended ?p [Completed]) (subscribers s' ?p)
                       \<and> b \<notin> set (listeners s'')"
        by blast
    }
  }
qed

theorem C4_completion_delay_witness:
  "step (EmitProject (ex_event ''completed'' [] 0)) ex_server = Some (ex_armed 0)
   \<and> exec [EmitProject (ex_event ''completed'' [] 0), Tick 1999] ex_server = Some (ex_armed 1999)
   \<and> completed_seen (ex_armed 1999) ''P1'' = [0]
   \<and> step (Fire 0) (ex_armed 1999) = None
   \<and> (\<exists>s''. step (Fire 0) (ex_armed 2000) = Some s''
         \<and> delivered s'' ''P1'' = [[(''P1'', Completed)]]
         \<and> ex_bridge \<notin> set (listeners s''))"
proof -
  let ?e = "ex_event ''completed'' [] 0"
  have p: "evt_projectId ?e = ''P1''" by (simp add: ex_event_def)
  have h1: "attached ex_server (evt_projectId ?e) = [ex_bridge]"
    by (simp add: attached_def ex_server_def ex_bridge_def ex_event_def)
  have h2: "evt_type ?e = ''completed''"
    by (simp add: ex_event_def)
  have h3: "completion_due ex_server (evt_projectId ?e) = []"
    by (simp add: completion_due_def ex_server_def)
  have armed: "ex_server\<lparr>timers := timers ex_server @ [(0 + 2000, CompletionTimer ex_bridge)]\<rparr>
                 = ex_armed 0"
    by (simp add: ex_armed_def ex_server_def)
  have now0: "now ex_server = 0" by (simp add: ex_server_def)
  note C = C4_completion_delay [OF h1 h2, unfolded p now0 armed]
  note h3 = h3 [unfolded p]
  from C have a: "step (EmitProject ?e) ex_server = Some (ex_armed 0)"
    by (rule conjunct1)
  have tick: "step (Tick 1999) (ex_armed 0) = Some (ex_armed 1999)"
    by (simp add: ex_armed_def)
  from a tick have run: "exec [EmitProject ?e, Tick 1999] ex_server = Some (ex_armed 1999)"
    by simp
  have early: "now (ex_armed 1999) < 0 + 2000" by (simp add: ex_armed_def)
  from C h3 run early have "completed_seen (ex_armed 1999) ''P1'' = completed_seen ex_server ''P1''"
    by blast
  moreover have "completed_seen ex_server ''P1'' = [0]"
    by (simp add: completed_seen_def subscribers_def ex_server_def ex_viewer_def)
  ultimately have b: "completed_seen (ex_armed 1999) ''P1'' = [0]" by simp
  have t: "0 < length (timers (ex_armed k)) \<and> timers (ex_armed k) ! 0 = (0 + 2000, CompletionTimer ex_bridge)" for k
    by (simp add: ex_armed_def)
  from C t [of 1999] early have c: "step (Fire 0) (ex_armed 1999) = None"
    by blast
  have late: "0 + 2000 \<le> now (ex_armed 2000)" by (simp add: ex_armed_def)
  from C t [of 2000] late
  obtain s'' where f: "step (Fire 0) (ex_armed 2000) = Some s''"
    and d: "delivered s'' ''P1'' = map (appended ''P1'' [Completed]) (subscribers (ex_armed 2000) ''P1'')"
    and l: "ex_bridge \<notin> set (listeners s'')"
    by blast
  have "subscribers (ex_armed 2000) ''P1'' = [ex_viewer]"
    by (simp add: subscribers_def ex_armed_def ex_server_def)
  with d have "delivered s'' ''P1'' = [[(''P1'', Completed)]]"
    by (simp add: appended_def ex_viewer_def)
  with f l a run b c show ?thesis by blast
qed


text \<open>
  C5 (as the code has it). A broadcast writes the event to every stream of the project
  whose write succeeds; a write that throws is swallowed: the streams after it still
  receive the event, nothing else in the server changes, and a broadcast to a project
  without streams changes nothing. The stream whose write failed stays in the set.
\<close>

theorem C5_emitToProject_swallows:
  "map client_id (subscribers (emitToProject p pl s) p) = map client_id (subscribers s p)
   \<and> map write_throws (subscribers (emitToProject p pl s) p) = map write_throws (subscribers s p)
   \<and> map received (subscribers (emitToProject p pl s) p)
       = map (\<lambda>res. if write_throws res then received res else received res @ [(p, pl)])
           (subscribers s p)
   \<and> (\<forall>q. q \<noteq> p \<longrightarrow> sseClients (emitToProject p pl s) q = sseClients s q)
   \<and> (subscribers s p = [] \<longrightarrow> emitToProject p pl s = s)
   \<and> activeProjects (emitToProject p pl s) = activeProjects s
   \<and> listeners (emitToProject p pl s) = listeners s
   \<and> timers (emitToProject p pl s) = timers s"
proof (intro conjI)
  show "\<forall>q. q \<noteq> p \<longrightarrow> sseClients (emitToProject p pl s) q = sseClients s q"
    by (simp add: emitToProject_def split: option.splits)
  show "subscribers s p = [] \<longrightarrow> emitToProject p pl s = s"
    by (simp add: emitToProject_no_subscribers)
qed (simp_all add: subscribers_emitToProject write_data_def comp_def)

theorem C5_emitToProject_swallows_witness:
  "map received (subscribers (emitToProject ''P1'' Completed ex_two_viewers) ''P1'')
     = [[], [(''P1'', Completed)]]
   \<and> sseClients (emitToProject ''P1'' Completed ex_two_viewers) ''P2'' = None
   \<and> emitToProject ''P2'' Completed ex_two_viewers = ex_two_viewers"
proof -
  have subs: "subscribers ex_two_viewers ''P1'' = [ex_gone, ex_viewer]"
    "subscribers ex_two_viewers ''P2'' = []"
    by (simp_all add: subscribers_def ex_two_viewers_def ex_server_def)
  have other: "''P2'' \<noteq> ''P1''" by simp
  have none: "sseClients ex_two_viewers ''P2'' = None"
    by (simp add: ex_two_viewers_def ex_server_def)
  show ?thesis
    using C5_emitToProject_swallows [of "''P1''" Completed ex_two_viewers]
      C5_emitToProject_swallows [of "''P2''" Completed ex_two_viewers] subs other none
    by (simp add: ex_gone_def ex_viewer_def)
qed

text \<open>
  Of two streams the first throws on every write. After a broadcast it is still in the
  set of the project.
\<close>

theorem C5_failed_write_keeps_subscriber:
  "write_throws ex_gone
   \<and> ex_gone \<in> set (subscribers (emitToProject ''P1'' Completed ex_two_viewers) ''P1'')"
proof -
  have "subscribers ex_two_viewers ''P1'' = [ex_gone, ex_viewer]"
    by (simp add: subscribers_def ex_two_viewers_def ex_server_def)
  then show ?thesis
    by (simp add: subscribers_emitToProject write_data_def ex_gone_def)
qed






text \<open>
  C8 (as the code has it). The registry's create is \<open>activeProjects.set\<close>: an accepted
  generate request stores the created project under its id and never fails on an id that
  is already present; the entry that was there is replaced, the other entries are kept.
\<close>

theorem C8_create_replaces:
  assumes "req_prompt req \<noteq> []" and "provider (project_params req) = Inr project"
  shows "activeProjects (fst (handle_generate req provider s)) (proj_id project) = Some project
         \<and> (\<forall>q. q \<noteq> proj_id project \<longrightarrow>
               activeProjects (fst (handle_generate req provider s)) q = activeProjects s q)
         \<and> (\<exists>js. snd (handle_generate req provider s) = Json200 (proj_id project) js)"
  using assms by (simp add: handle_generate_def Let_def)

theorem C8_create_replaces_witness:
  "activeProjects (fst (handle_generate ex_request (\<lambda>_. Inr ex_project) ex_server)) ''P1''
     = Some ex_project
   \<and> activeProjects (fst (handle_generate ex_request (\<lambda>_. Inr ex_project) ex_server)) ''P2''
     = None"
proof -
  have h1: "req_prompt ex_request \<noteq> []" by (simp add: ex_request_def)
  have h2: "(\<lambda>_. Inr ex_project) (project_params ex_request) = Inr ex_project" by simp
  have h3: "''P2'' \<noteq> proj_id ex_project" by (simp add: ex_project_def)
  have h4: "activeProjects ex_server ''P2'' = None" by (simp add: ex_server_def)
  show ?thesis
    using C8_create_replaces [OF h1 h2, of ex_server] h3 h4
    by (simp add: ex_project_def)
qed

text \<open>
  A second accepted request whose project has the id of a registered one: no failure, the
  response is the usual one and the registry holds the new project.
\<close>

theorem C8_create_on_present_id:
  "activeProjects ex_server ''P1'' = Some ex_project
   \<and> ex_project_again \<noteq> ex_project
   \<and> activeProjects (fst (handle_generate ex_request (\<lambda>_. Inr ex_project_again) ex_server)) ''P1''
       = Some ex_project_again
   \<and> snd (handle_generate ex_request (\<lambda>_. Inr ex_project_again) ex_server)
       = Json200 ''P1'' [(''J9'', 0)]"
  by (simp add: handle_generate_def Let_def ex_server_def ex_request_def ex_project_again_def
      ex_project_def jobs_json_def)

text \<open>
  C9 (as the code has it). For an accepted generate request the response carries the
  provider-assigned project id and one job entry per element of the provider's sub-task
  list, in the list's order, the index fields being 0, 1, ..., n - 1 for a list of n
  sub-tasks. The request asks the provider for 16 images; the response has 16 entries
  indexed 0..15 exactly when the provider's list has 16 elements.
\<close>

theorem C9_generate_response:
  assumes "req_prompt req \<noteq> []" and "provider (project_params req) = Inr project"
  shows "snd (handle_generate req provider s)
           = Json200 (proj_id project) (jobs_json (proj_jobs project))
         \<and> map fst (jobs_json (proj_jobs project)) = map job_id (proj_jobs project)
         \<and> map snd (jobs_json (proj_jobs project)) = [0..<length (proj_jobs project)]
         \<and> length (jobs_json (proj_jobs project)) = length (proj_jobs project)
         \<and> numberOfImages (project_params req) = 16
         \<and> (length (jobs_json (proj_jobs project)) = 16
              \<longleftrightarrow> length (proj_jobs project) = 16)"
proof -
  have fst_eq: "map fst (jobs_json js) = map job_id js" for js
    unfolding jobs_json_def
    by (rule nth_equalityI) (simp_all add: split_def)
  have snd_eq: "map snd (jobs_json js) = [0..<length js]" for js
    unfolding jobs_json_def
    by (rule nth_equalityI) (simp_all add: split_def)
  have len: "length (jobs_json js) = length js" for js
    by (simp add: jobs_json_def)
  show ?thesis
    using assms by (simp add: handle_generate_def Let_def fst_eq snd_eq len project_params_def)
qed

theorem C9_generate_response_witness:
  "snd (handle_generate ex_request (\<lambda>_. Inr ex_project_again) ex_idle)
     = Json200 ''P1'' (jobs_json [\<lparr>job_id = ''J9''\<rparr>])
   \<and> map snd (jobs_json [\<lparr>job_id = ''J9''\<rparr>]) = [0]
   \<and> map fst (jobs_json [\<lparr>job_id = ''J9''\<rparr>]) = [''J9'']"
proof -
  have h1: "req_prompt ex_request \<noteq> []" by (simp add: ex_request_def)
  have h2: "(\<lambda>_. Inr ex_project_again) (project_params ex_request) = Inr ex_project_again"
    by simp
  show ?thesis
    using C9_generate_response [OF h1 h2, of ex_idle]
    by (simp add: ex_project_again_def)
qed

text \<open>
  A provider that answers with a project of two sub-tasks: the response has two entries.
\<close>

theorem C9_two_jobs_two_entries:
  "snd (handle_generate ex_request (\<lambda>_. Inr ex_project) ex_idle)
     = Json200 ''P1'' [(''J1'', 0), (''J2'', 1)]
   \<and> length [(''J1'', 0::nat), (''J2'', 1)] \<noteq> 16"
  by (simp add: handle_generate_def Let_def ex_request_def ex_project_def jobs_json_def)





end
